theory Spec2Isabelle
  imports Complex_Main "HOL-Library.Log_Nat"
begin

section \<open>JavaScript numbers\<close>

text \<open>
  Every number of the program is an ECMAScript Number: an IEEE 754 binary64 value.
  A finite non-zero double, and the positive zero, is kept by its exact rational value
  (\<open>Num 0\<close> is \<open>+0\<close>); the negative zero, the two infinities and the single
  observable NaN are constructors of their own. Arithmetic computes the exact rational
  result and rounds it to the nearest double, ties to even, as the language prescribes.
\<close>

datatype jsnum = Num rat | NegZero | PosInf | NegInf | NaN

text \<open>The integer \<open>k\<close> with \<open>2^k \<le> a < 2^(k+1)\<close>, for a positive rational.\<close>

definition floor_log2 :: "rat \<Rightarrow> int" where
  "floor_log2 a =
     (case quotient_of a of (p, q) \<Rightarrow>
        let d = int (floorlog 2 (nat p)) - int (floorlog 2 (nat q))
        in if 2 powi d \<le> a then d else d - 1)"

definition round_half_even :: "rat \<Rightarrow> int" where
  "round_half_even q =
     (let f = \<lfloor>q\<rfloor>; r = q - of_int f
      in if r < 1 / 2 then f
         else if 1 / 2 < r then f + 1
         else if even f then f else f + 1)"

text \<open>
  Rounding of an exact result to binary64: 53 bits of significand, the least exponent
  of a unit in the last place is \<open>-1074\<close> (subnormal numbers), and a rounded magnitude of
  \<open>2^1024\<close> or more overflows to an infinity. A non-zero result that rounds to zero
  keeps its sign.
\<close>

definition round_double :: "rat \<Rightarrow> jsnum" where
  "round_double x =
     (if x = 0 then Num 0
      else let a = \<bar>x\<bar>;
               e = max (floor_log2 a - 52) (- 1074);
               m = round_half_even (a / 2 powi e);
               v = of_int m * 2 powi e
           in if 2 powi 1024 \<le> v then (if 0 < x then PosInf else NegInf)
              else if m = 0 then (if 0 < x then Num 0 else NegZero)
              else Num (if 0 < x then v else - v))"

fun is_zero :: "jsnum \<Rightarrow> bool" where
  "is_zero (Num a) = (a = 0)"
| "is_zero NegZero = True"
| "is_zero _ = False"

fun is_inf :: "jsnum \<Rightarrow> bool" where
  "is_inf PosInf = True"
| "is_inf NegInf = True"
| "is_inf _ = False"

fun is_finite :: "jsnum \<Rightarrow> bool" where
  "is_finite (Num a) = True"
| "is_finite NegZero = True"
| "is_finite _ = False"

text \<open>The sign bit.\<close>

fun negative :: "jsnum \<Rightarrow> bool" where
  "negative (Num a) = (a < 0)"
| "negative NegZero = True"
| "negative NegInf = True"
| "negative _ = False"

fun val :: "jsnum \<Rightarrow> rat" where
  "val (Num a) = a"
| "val _ = 0"

definition zero_of :: "bool \<Rightarrow> jsnum" where
  "zero_of s = (if s then NegZero else Num 0)"

definition inf_of :: "bool \<Rightarrow> jsnum" where
  "inf_of s = (if s then NegInf else PosInf)"

text \<open>Unary minus flips the sign bit.\<close>

fun neg :: "jsnum \<Rightarrow> jsnum" where
  "neg (Num a) = (if a = 0 then NegZero else Num (- a))"
| "neg NegZero = Num 0"
| "neg PosInf = NegInf"
| "neg NegInf = PosInf"
| "neg NaN = NaN"

text \<open>\<open>x + y\<close>: opposite infinities give NaN, a sum that is exactly zero is \<open>+0\<close>
  unless both operands are \<open>-0\<close>.\<close>

definition add :: "jsnum \<Rightarrow> jsnum \<Rightarrow> jsnum" where
  "add x y =
     (if x = NaN \<or> y = NaN then NaN
      else if is_inf x then (if is_inf y \<and> x \<noteq> y then NaN else x)
      else if is_inf y then y
      else if x = NegZero \<and> y = NegZero then NegZero
      else if val x + val y = 0 then Num 0
      else round_double (val x + val y))"

text \<open>\<open>x - y\<close> is \<open>x + (-y)\<close>.\<close>

definition sub :: "jsnum \<Rightarrow> jsnum \<Rightarrow> jsnum" where
  "sub x y = add x (neg y)"

text \<open>\<open>x * y\<close>: an infinity times a zero is NaN; otherwise the sign is the exclusive
  or of the operands' signs.\<close>

definition mul :: "jsnum \<Rightarrow> jsnum \<Rightarrow> jsnum" where
  "mul x y =
     (if x = NaN \<or> y = NaN then NaN
      else if is_inf x \<or> is_inf y then
        (if is_zero x \<or> is_zero y then NaN else inf_of (negative x \<noteq> negative y))
      else if is_zero x \<or> is_zero y then zero_of (negative x \<noteq> negative y)
      else round_double (val x * val y))"

text \<open>\<open>x / y\<close>: no exception is ever raised; \<open>0/0\<close> and \<open>\<infinity>/\<infinity>\<close> are NaN, any other
  division by a zero is an infinity.\<close>

definition fdiv :: "jsnum \<Rightarrow> jsnum \<Rightarrow> jsnum" where
  "fdiv x y =
     (if x = NaN \<or> y = NaN then NaN
      else if is_inf x then (if is_inf y then NaN else inf_of (negative x \<noteq> negative y))
      else if is_inf y then zero_of (negative x \<noteq> negative y)
      else if is_zero y then (if is_zero x then NaN else inf_of (negative x \<noteq> negative y))
      else if is_zero x then zero_of (negative x \<noteq> negative y)
      else round_double (val x / val y))"

text \<open>The relational operators \<open><\<close>, \<open><=\<close> and \<open>==\<close>: false whenever an operand is
  NaN, and the two zeros are equal.\<close>

fun lt :: "jsnum \<Rightarrow> jsnum \<Rightarrow> bool" where
  "lt NaN y = False"
| "lt x NaN = False"
| "lt PosInf y = False"
| "lt x NegInf = False"
| "lt NegInf y = True"
| "lt x PosInf = True"
| "lt x y = (val x < val y)"

definition le :: "jsnum \<Rightarrow> jsnum \<Rightarrow> bool" where
  "le x y = (x \<noteq> NaN \<and> y \<noteq> NaN \<and> \<not> lt y x)"

definition js_eq :: "jsnum \<Rightarrow> jsnum \<Rightarrow> bool" where
  "js_eq x y = (x \<noteq> NaN \<and> y \<noteq> NaN \<and> \<not> lt x y \<and> \<not> lt y x)"

text \<open>A numeric literal of the source denotes the double nearest to its decimal value.\<close>

definition lit :: "rat \<Rightarrow> jsnum" where
  "lit r = round_double r"

text \<open>A value of the model is a double when rounding leaves it unchanged.\<close>

definition is_double :: "jsnum \<Rightarrow> bool" where
  "is_double x = (case x of Num a \<Rightarrow> round_double a = Num a | _ \<Rightarrow> True)"

section \<open>JavaScript values held in scene flags\<close>

text \<open>
  The flag bag of a scene is JSON-like data. The settings form of the module stores a
  Boolean field and five Number fields, so the values modelled are undefined (a missing
  property), null, booleans, numbers and plain objects (property lists in insertion
  order); string-valued and array-valued flags are not modelled.
\<close>

datatype jsval = JUndefined | JNull | JBool bool | JNum jsnum | JObj "(string \<times> jsval) list"

text \<open>\<open>o.name\<close> on an object value: the property, or undefined when it is missing.\<close>

definition get_prop :: "(string \<times> jsval) list \<Rightarrow> string \<Rightarrow> jsval" where
  "get_prop kvs name = (case map_of kvs name of None \<Rightarrow> JUndefined | Some v \<Rightarrow> v)"

text \<open>\<open>v?.name\<close>: undefined when \<open>v\<close> is null or undefined. A boolean or a number has
  none of the properties the program reads, so the access gives undefined.\<close>

fun opt_prop :: "jsval \<Rightarrow> string \<Rightarrow> jsval" where
  "opt_prop (JObj kvs) name = get_prop kvs name"
| "opt_prop _ name = JUndefined"

text \<open>The left operand of \<open>??\<close> is replaced when it is null or undefined.\<close>

fun nullish :: "jsval \<Rightarrow> bool" where
  "nullish JUndefined = True"
| "nullish JNull = True"
| "nullish _ = False"

definition coalesce :: "jsval \<Rightarrow> jsval \<Rightarrow> jsval" where
  "coalesce v d = (if nullish v then d else v)"

text \<open>\<open>Boolean(v)\<close>, which is also the test of \<open>||\<close> and of the conditional operator.\<close>

fun truthy :: "jsval \<Rightarrow> bool" where
  "truthy JUndefined = False"
| "truthy JNull = False"
| "truthy (JBool b) = b"
| "truthy (JNum n) = (\<not> is_zero n \<and> n \<noteq> NaN)"
| "truthy (JObj kvs) = True"

text \<open>\<open>Number(v)\<close>. A plain object converts through its string form to NaN.\<close>

fun Number :: "jsval \<Rightarrow> jsnum" where
  "Number JUndefined = NaN"
| "Number JNull = Num 0"
| "Number (JBool b) = (if b then Num 1 else Num 0)"
| "Number (JNum n) = n"
| "Number (JObj kvs) = NaN"

section \<open>The host state the module reads and writes\<close>

text \<open>A map pin: \<open>note.transform.scale.x\<close> and \<open>note.transform.scale.y\<close>.\<close>

record pin_note =
  scale_x :: jsnum
  scale_y :: jsnum

text \<open>
  The value of \<open>style.transform\<close> of a HUD element: the empty string, the string
  \<open>scale(s)\<close> built by the module from the number \<open>s\<close> (kept with its argument rather
  than printed), or any other text.
\<close>

datatype transform = Empty | ScaleOf jsnum | OtherCss string

text \<open>
  \<open>flags\<close> is \<open>canvas.scene.data.flags\<close>, \<open>maxZoom\<close> is \<open>CONFIG.Canvas.maxZoom\<close>,
  \<open>children\<close> is \<open>canvas.notes.objects.children\<close>, \<open>elements\<close> gives, for an HTML id that
  \<open>document.getElementById\<close> finds, the element's \<open>style.transform\<close>, and \<open>stage_scale\<close>
  is \<open>canvas.stage.scale.x\<close>.
\<close>

record world =
  flags :: "(string \<times> jsval) list"
  maxZoom :: jsnum
  children :: "pin_note list"
  elements :: "string \<rightharpoonup> transform"
  stage_scale :: jsnum

section \<open>PinFixer\<close>

definition minCanvScale :: jsnum where
  "minCanvScale = lit (1 / 10)"

definition maxCanvScale :: "world \<Rightarrow> jsnum" where
  "maxCanvScale w = maxZoom w"

text \<open>\<open>this.flags.pinfix?.name\<close>\<close>

definition pinfix :: "world \<Rightarrow> string \<Rightarrow> jsval" where
  "pinfix w name = opt_prop (get_prop (flags w) ''pinfix'') name"

definition enabled :: "world \<Rightarrow> bool" where
  "enabled w = truthy (pinfix w ''enable'')"

definition zoomFloor :: "world \<Rightarrow> jsnum" where
  "zoomFloor w = Number (coalesce (pinfix w ''zoomFloor'') (JNum minCanvScale))"

definition zoomCeil :: "world \<Rightarrow> jsnum" where
  "zoomCeil w = Number (coalesce (pinfix w ''zoomCeil'') (JNum (maxCanvScale w)))"

definition minScale :: "world \<Rightarrow> jsnum" where
  "minScale w = Number (coalesce (pinfix w ''minScale'') (JNum (Num 1)))"

definition maxScale :: "world \<Rightarrow> jsnum" where
  "maxScale w = Number (coalesce (pinfix w ''maxScale'') (JNum (Num 1)))"

definition hudScale :: "world \<Rightarrow> jsnum" where
  "hudScale w = Number (coalesce (pinfix w ''hudScale'') (JNum (Num 1)))"

record hud_data =
  hook :: string
  hud_id :: string

definition huds :: "hud_data list" where
  "huds = [\<lparr>hook = ''renderPinCushionHUD'', hud_id = ''pin-cushion-hud''\<rparr>,
           \<lparr>hook = ''renderPoiTpHUD'', hud_id = ''poi-tp-ctx-menu''\<rparr>]"

definition reciprocal :: "jsnum \<Rightarrow> jsnum" where
  "reciprocal number = fdiv (Num 1) number"

text \<open>\<open>to[0] + (s - from[0]) * (to[1] - to[0]) / (from[1] - from[0])\<close>\<close>

definition map_range :: "jsnum \<times> jsnum \<Rightarrow> jsnum \<times> jsnum \<Rightarrow> jsnum \<Rightarrow> jsnum" where
  "map_range from to s =
     add (fst to) (fdiv (mul (sub s (fst from)) (sub (snd to) (fst to)))
                          (sub (snd from) (fst from)))"

text \<open>
  Modelled from the spec: \<open>Math.clamped\<close> is a helper of the host application, not of
  this repository. The spec says of the clamp into \<open>[zoomFloor, zoomCeil]\<close> that values
  outside are pulled to the nearer bound and values inside pass through unchanged.
\<close>

definition clamped :: "jsnum \<Rightarrow> jsnum \<Rightarrow> jsnum \<Rightarrow> jsnum" where
  "clamped num lo hi = (if lt num lo then lo else if lt hi num then hi else num)"

definition clampZoom :: "world \<Rightarrow> jsnum \<Rightarrow> jsnum" where
  "clampZoom w zoom = clamped zoom (zoomFloor w) (zoomCeil w)"

definition remapZoom :: "world \<Rightarrow> jsnum \<Rightarrow> jsnum" where
  "remapZoom w zoom = map_range (zoomFloor w, zoomCeil w) (minScale w, maxScale w) zoom"

definition noteScaleFactor :: "world \<Rightarrow> jsnum \<Rightarrow> jsnum" where
  "noteScaleFactor w scale = remapZoom w (clampZoom w scale)"

definition noteScaleBasic :: "jsnum \<Rightarrow> jsnum" where
  "noteScaleBasic scale = reciprocal scale"

definition hudScaleFactor :: "world \<Rightarrow> jsnum \<Rightarrow> jsnum" where
  "hudScaleFactor w scale = mul (noteScaleBasic scale) (hudScale w)"

definition noteScaleConfigured :: "world \<Rightarrow> jsnum \<Rightarrow> jsnum" where
  "noteScaleConfigured w scale = mul (reciprocal scale) (noteScaleFactor w scale)"

definition scaleNote :: "pin_note \<Rightarrow> jsnum \<Rightarrow> pin_note" where
  "scaleNote n scale = n\<lparr>scale_x := scale, scale_y := scale\<rparr>"

definition scaleNotes :: "world \<Rightarrow> jsnum \<Rightarrow> world" where
  "scaleNotes w scale =
     (let scaled = noteScaleConfigured w scale
      in w\<lparr>children := map (\<lambda>n. scaleNote n scaled) (children w)\<rparr>)"

definition scaleHUD :: "world \<Rightarrow> string \<Rightarrow> jsnum \<Rightarrow> world" where
  "scaleHUD w hudId scale =
     (case elements w hudId of
        None \<Rightarrow> w
      | Some t \<Rightarrow> w\<lparr>elements := (elements w)(hudId \<mapsto> ScaleOf scale)\<rparr>)"

definition scaleHUDs :: "world \<Rightarrow> jsnum \<Rightarrow> world" where
  "scaleHUDs w scale =
     (let hudScale = hudScaleFactor w scale
      in fold (\<lambda>hud w'. scaleHUD w' (hud_id hud) hudScale) huds w)"

definition resetHudScale :: "world \<Rightarrow> string \<Rightarrow> world" where
  "resetHudScale w hudId =
     (case elements w hudId of
        None \<Rightarrow> w
      | Some t \<Rightarrow> w\<lparr>elements := (elements w)(hudId \<mapsto> Empty)\<rparr>)"

definition resetHUDs :: "world \<Rightarrow> world" where
  "resetHUDs w = fold (\<lambda>hud w'. resetHudScale w' (hud_id hud)) huds w"

definition reset :: "world \<Rightarrow> world" where
  "reset w = resetHUDs (scaleNotes w (Num 1))"

text \<open>The handlers of the hooks. Of the pan data only \<open>pan.scale\<close> is read.\<close>

definition canvasPan :: "world \<Rightarrow> jsnum \<Rightarrow> world" where
  "canvasPan w pan_scale =
     (if \<not> enabled w then w
      else scaleHUDs (scaleNotes w pan_scale) pan_scale)"

definition renderHUD :: "world \<Rightarrow> string \<Rightarrow> world" where
  "renderHUD w ident =
     (if \<not> enabled w then w
      else scaleHUD w ident (hudScaleFactor w (stage_scale w)))"

definition updateScene :: "world \<Rightarrow> world" where
  "updateScene w =
     (if \<not> enabled w then reset w
      else canvasPan w (stage_scale w))"

text \<open>\<open>data.entity?.flags?.pinfix || { enable: false, ... }\<close>\<close>

definition getSceneTemplateData :: "world \<Rightarrow> (string \<times> jsval) list \<Rightarrow> jsval" where
  "getSceneTemplateData w data =
     (let p = opt_prop (opt_prop (get_prop data ''entity'') ''flags'') ''pinfix''
      in if truthy p then p
         else JObj [(''enable'', JBool False),
                    (''zoomFloor'', JNum minCanvScale),
                    (''zoomCeil'', JNum (maxCanvScale w)),
                    (''minScale'', JNum (Num 1)),
                    (''maxScale'', JNum (Num 1)),
                    (''hudScale'', JNum (Num 1))])"

text \<open>
  The fragment of the scene configuration form: of the template string the slots filled
  from the settings are kept, the fixed markup and the localised labels are not.
\<close>

record scene_html =
  enable_checked :: bool
  minScale_value :: jsval
  maxScale_value :: jsval
  zoomFloor_value :: jsval
  zoomCeil_value :: jsval
  hudScale_value :: jsval

definition getSceneHtml :: "jsval \<Rightarrow> scene_html" where
  "getSceneHtml settings =
     \<lparr>enable_checked = truthy (opt_prop settings ''enable''),
      minScale_value = opt_prop settings ''minScale'',
      maxScale_value = opt_prop settings ''maxScale'',
      zoomFloor_value = opt_prop settings ''zoomFloor'',
      zoomCeil_value = opt_prop settings ''zoomCeil'',
      hudScale_value = opt_prop settings ''hudScale''\<rparr>"

text \<open>
  The sheet of the scene configuration in document order: elements of class
  \<open>form-group\<close>, other elements, and fragments injected by the module, which
  end in a \<open>form-group\<close> of their own.
\<close>

datatype sheet_node = FormGroup | OtherNode | PinFix scene_html

fun is_form_group :: "sheet_node \<Rightarrow> bool" where
  "is_form_group FormGroup = True"
| "is_form_group OtherNode = False"
| "is_form_group (PinFix h) = True"

text \<open>\<open>html.find(".form-group").last().after(x)\<close>: nothing is inserted when no element
  is found.\<close>

fun after_last :: "sheet_node \<Rightarrow> sheet_node list \<Rightarrow> sheet_node list" where
  "after_last x [] = []"
| "after_last x (y # ys) =
     (if list_ex is_form_group ys then y # after_last x ys
      else if is_form_group y then y # x # ys
      else y # ys)"

definition renderSceneConfig ::
  "world \<Rightarrow> sheet_node list \<Rightarrow> (string \<times> jsval) list \<Rightarrow> sheet_node list" where
  "renderSceneConfig w html data =
     after_last (PinFix (getSceneHtml (getSceneTemplateData w data))) html"

section \<open>Sample scenes\<close>

text \<open>A scene with every setting stored, two pins and one of the two known HUDs mounted.\<close>

definition settings_demo :: jsval where
  "settings_demo =
     JObj [(''enable'', JBool True), (''zoomFloor'', JNum (Num 0)),
           (''zoomCeil'', JNum (Num 2)), (''minScale'', JNum (Num 1)),
           (''maxScale'', JNum (Num 3)), (''hudScale'', JNum (Num 2))]"

definition w_demo :: world where
  "w_demo =
     \<lparr>flags = [(''pinfix'', settings_demo)],
      maxZoom = Num 3,
      children = [\<lparr>scale_x = Num 5, scale_y = Num 7\<rparr>, \<lparr>scale_x = Num 1, scale_y = Num 1\<rparr>],
      elements = [''pin-cushion-hud'' \<mapsto> OtherCss ''rotate(3deg)''],
      stage_scale = Num 1\<rparr>"

text \<open>The same scene with another remap curve and the same HUD multiplier.\<close>

definition w_curve :: world where
  "w_curve =
     w_demo\<lparr>flags := [(''pinfix'',
        JObj [(''enable'', JBool True), (''zoomFloor'', JNum (Num 1)),
              (''zoomCeil'', JNum (Num 4)), (''minScale'', JNum (Num 2)),
              (''maxScale'', JNum (Num 5)), (''hudScale'', JNum (Num 2))])]\<rparr>"

text \<open>A scene that was never configured.\<close>

definition w_fresh :: world where
  "w_fresh = w_demo\<lparr>flags := []\<rparr>"

text \<open>A scene whose stored settings hold three fields, one of them null.\<close>

definition w_partial :: world where
  "w_partial =
     w_demo\<lparr>flags := [(''pinfix'',
        JObj [(''enable'', JBool True), (''maxScale'', JNum (Num 3)),
              (''hudScale'', JNull)])]\<rparr>"

text \<open>Template data of a scene whose stored settings hold the \<open>enable\<close> field only.\<close>

definition data_partial :: "(string \<times> jsval) list" where
  "data_partial =
     [(''entity'', JObj [(''flags'', JObj [(''pinfix'', JObj [(''enable'', JBool True)])])])]"

text \<open>The first scene with scaling switched off.\<close>

definition w_off :: world where
  "w_off =
     w_demo\<lparr>flags := [(''pinfix'',
        JObj [(''enable'', JBool False), (''zoomFloor'', JNum (Num 0)),
              (''zoomCeil'', JNum (Num 2)), (''minScale'', JNum (Num 1)),
              (''maxScale'', JNum (Num 3)), (''hudScale'', JNum (Num 2))])]\<rparr>"

text \<open>A scene with the degenerate zoom interval \<open>[1, 1]\<close> and both scales 1.\<close>

definition w_flat :: world where
  "w_flat =
     w_demo\<lparr>flags := [(''pinfix'',
        JObj [(''enable'', JBool True), (''zoomFloor'', JNum (Num 1)),
              (''zoomCeil'', JNum (Num 1)), (''minScale'', JNum (Num 1)),
              (''maxScale'', JNum (Num 1))])]\<rparr>"

text \<open>A scene with the zoom interval \<open>[0, 4]\<close> and both scales 1.\<close>

definition w_unit :: world where
  "w_unit =
     w_demo\<lparr>flags := [(''pinfix'',
        JObj [(''enable'', JBool True), (''zoomFloor'', JNum (Num 0)),
              (''zoomCeil'', JNum (Num 4)), (''minScale'', JNum (Num 1)),
              (''maxScale'', JNum (Num 1))])]\<rparr>"

text \<open>A scene whose zoom interval spans the two largest powers of two.\<close>

definition w_huge :: world where
  "w_huge =
     w_demo\<lparr>flags := [(''pinfix'',
        JObj [(''zoomFloor'', JNum (Num (- (2 ^ 1023)))), (''zoomCeil'', JNum (Num (2 ^ 1023))),
              (''minScale'', JNum (Num 1)), (''maxScale'', JNum (Num 1))])]\<rparr>"

text \<open>The configuration of the worked examples: \<open>zoomFloor = 0.1\<close>,
  \<open>zoomCeil = 2.0\<close>, \<open>minScale = 1\<close>, \<open>maxScale = 0.5\<close>.\<close>

definition w_example :: world where
  "w_example =
     w_demo\<lparr>flags := [(''pinfix'',
        JObj [(''zoomFloor'', JNum (lit (1 / 10))), (''zoomCeil'', JNum (lit 2)),
              (''minScale'', JNum (lit 1)), (''maxScale'', JNum (lit (1 / 2)))])]\<rparr>"

section \<open>Rounding to binary64\<close>

text \<open>Powers of two and the exponent of a positive rational.\<close>

lemma p2_less_iff: "(2::rat) powi m < 2 powi n \<longleftrightarrow> m < n"
proof
  assume "(2::rat) powi m < 2 powi n"
  show "m < n"
  proof (rule ccontr)
    assume "\<not> m < n"
    then have "n \<le> m" by simp
    then have "(2::rat) powi n \<le> 2 powi m" by (intro power_int_increasing) auto
    with \<open>(2::rat) powi m < 2 powi n\<close> show False by simp
  qed
next
  assume "m < n"
  then show "(2::rat) powi m < 2 powi n" by (intro power_int_strict_increasing) auto
qed

lemma p2_le_iff: "(2::rat) powi m \<le> 2 powi n \<longleftrightarrow> m \<le> n"
  using p2_less_iff [of n m] by (auto simp: not_less [symmetric])

lemma p2_nat: "(2::rat) powi (int n) = 2 ^ n"
  by (simp add: power_int_def)

lemma p2_add: "(2::rat) powi (m + n) = 2 powi m * 2 powi n"
  by (simp add: power_int_add)

lemma p2_div_le: "2 powi (e + k) \<le> x \<Longrightarrow> (2::rat) powi k \<le> x / 2 powi e"
  by (simp add: p2_add field_simps)

lemma p2_split: "(2::rat) powi e = 2 powi (e + k) * 2 powi (- k)"
  by (simp add: power_int_add [symmetric])

lemma floorlog_rat_bounds:
  assumes "0 < n"
  shows "(2::rat) powi (int (floorlog 2 (nat n)) - 1) \<le> of_int n
         \<and> of_int n < (2::rat) powi (int (floorlog 2 (nat n)))"
proof -
  define b where "b = floorlog 2 (nat n)"
  have bn: "2 ^ (b - 1) \<le> nat n \<and> nat n < 2 ^ b"
    unfolding b_def using assms by (intro floorlog_bounds) auto
  have b1: "1 \<le> b" using assms by (simp add: b_def floorlog_def)
  then have i: "int b - 1 = int (b - 1)" by simp
  have "(of_nat (2 ^ (b - 1)) :: rat) \<le> of_nat (nat n)"
    using bn by (simp only: of_nat_le_iff)
  then have lo: "(2::rat) ^ (b - 1) \<le> of_int n"
    using assms by simp
  have "(of_nat (nat n) :: rat) < of_nat (2 ^ b)"
    using bn by (simp only: of_nat_less_iff)
  then have up: "of_int n < (2::rat) ^ b"
    using assms by simp
  show ?thesis
    using lo up unfolding b_def [symmetric] i p2_nat by simp
qed

lemma floor_log2_bounds:
  assumes "0 < a"
  shows "2 powi floor_log2 a \<le> a \<and> a < 2 powi (floor_log2 a + 1)"
proof -
  obtain p q where pq: "quotient_of a = (p, q)" by (cases "quotient_of a")
  have q: "0 < q" using pq by (rule quotient_of_denom_pos)
  have a: "a = of_int p / of_int q" using pq by (rule quotient_of_div)
  have p: "0 < p" using assms q a by (simp add: zero_less_divide_iff)
  define bp where "bp = int (floorlog 2 (nat p))"
  define bq where "bq = int (floorlog 2 (nat q))"
  define d where "d = bp - bq"
  have P: "(2::rat) powi (bp - 1) \<le> of_int p \<and> of_int p < (2::rat) powi bp"
    unfolding bp_def using p by (rule floorlog_rat_bounds)
  have Q: "(2::rat) powi (bq - 1) \<le> of_int q \<and> of_int q < (2::rat) powi bq"
    unfolding bq_def using q by (rule floorlog_rat_bounds)
  have "of_int p / of_int q < (2::rat) powi bp / 2 powi (bq - 1)"
    using P Q p by (intro frac_less) auto
  also have "(2::rat) powi bp / 2 powi (bq - 1) = 2 powi (d + 1)"
    by (simp add: d_def power_int_diff [symmetric] algebra_simps)
  finally have up: "a < 2 powi (d + 1)" by (simp add: a)
  have "(2::rat) powi (bp - 1) / 2 powi bq < of_int p / of_int q"
    using P Q q by (intro frac_less2) auto
  moreover have "(2::rat) powi (bp - 1) / 2 powi bq = 2 powi (d - 1)"
    by (simp add: d_def power_int_diff [symmetric] algebra_simps)
  ultimately have lo: "2 powi (d - 1) < a" by (simp add: a)
  have fl: "floor_log2 a = (if 2 powi d \<le> a then d else d - 1)"
    by (simp add: floor_log2_def pq d_def bp_def bq_def Let_def)
  show ?thesis
    using up lo by (auto simp: fl less_imp_le)
qed

lemma floor_log2_eq:
  assumes "2 powi k \<le> a" "a < 2 powi (k + 1)"
  shows "floor_log2 a = k"
proof -
  have "(0::rat) < 2 powi k" by simp
  then have a: "0 < a" using assms(1) by (rule less_le_trans)
  note b = floor_log2_bounds [OF a]
  from b assms have "(2::rat) powi floor_log2 a < 2 powi (k + 1)" by simp
  then have 1: "floor_log2 a < k + 1" by (simp only: p2_less_iff)
  from b assms have "(2::rat) powi k < 2 powi (floor_log2 a + 1)" by simp
  then have 2: "k < floor_log2 a + 1" by (simp only: p2_less_iff)
  from 1 2 show ?thesis by simp
qed

text \<open>Rounding to the nearest integer.\<close>

lemma rhe_of_int: "round_half_even (of_int m) = m"
  by (simp add: round_half_even_def)

lemma rhe_near:
  assumes "\<bar>q - of_int m\<bar> < 1 / 2"
  shows "round_half_even q = m"
proof -
  define f where "f = \<lfloor>q\<rfloor>"
  have f: "of_int f \<le> q" "q < of_int f + 1" unfolding f_def by linarith+
  from assms have m: "of_int m - 1 / 2 < q" "q < of_int m + 1 / 2" by linarith+
  have "(of_int m :: rat) < of_int f + 3 / 2" using f m by linarith
  moreover have "(of_int f :: rat) < of_int m + 1 / 2" using f m by linarith
  ultimately have "(of_int m :: rat) < of_int (f + 2)" "(of_int f :: rat) < of_int (m + 1)" by simp_all
  then have c: "m < f + 2" "f < m + 1" by (simp_all only: of_int_less_iff)
  then consider "m = f" | "m = f + 1" by linarith
  then show ?thesis
  proof cases
    case 1
    then have "q - of_int f < 1 / 2" using m by simp
    then show ?thesis using 1 by (simp add: round_half_even_def f_def [symmetric])
  next
    case 2
    then have "1 / 2 < q - of_int f" using m by simp
    then show ?thesis using 2 by (simp add: round_half_even_def f_def [symmetric])
  qed
qed

lemma rhe_le:
  assumes "q \<le> of_int n"
  shows "round_half_even q \<le> n"
proof -
  have f: "\<lfloor>q\<rfloor> \<le> n" using assms by (simp add: floor_le_iff) 
  show ?thesis
  proof (cases "\<lfloor>q\<rfloor> = n")
    case True
    then have "q - of_int \<lfloor>q\<rfloor> \<le> 0" using assms by simp
    then show ?thesis using True by (simp add: round_half_even_def)
  next
    case False
    with f have "\<lfloor>q\<rfloor> + 1 \<le> n" by simp
    then show ?thesis using f by (simp add: round_half_even_def Let_def)
  qed
qed

lemma rhe_ge:
  assumes "of_int n \<le> q"
  shows "n \<le> round_half_even q"
proof -
  have "n \<le> \<lfloor>q\<rfloor>" using assms by (simp add: le_floor_iff)
  then show ?thesis by (simp add: round_half_even_def Let_def)
qed

text \<open>
  Rounding is symmetric in the sign, leaves a value with at most 53 significant bits
  unchanged, is idempotent, and sends a value within half a unit in the last place of a
  double to that double.
\<close>

lemma round_double_pos:
  assumes "0 < x"
  shows "round_double x =
     (let e = max (floor_log2 x - 52) (- 1074);
          m = round_half_even (x / 2 powi e);
          v = of_int m * 2 powi e
      in if 2 powi 1024 \<le> v then PosInf else if m = 0 then Num 0 else Num v)"
  using assms by (simp add: round_double_def Let_def)

lemma round_double_minus:
  assumes "x \<noteq> 0"
  shows "round_double (- x) = neg (round_double x)"
proof -
  define e where "e = max (floor_log2 \<bar>x\<bar> - 52) (- 1074)"
  define m where "m = round_half_even (\<bar>x\<bar> / 2 powi e)"
  have v: "m \<noteq> 0 \<Longrightarrow> rat_of_int m * 2 powi e \<noteq> 0" by simp
  show ?thesis
  proof (cases "0 < x")
    case True
    then show ?thesis
      using v by (simp add: round_double_def Let_def e_def [symmetric] m_def [symmetric])
  next
    case False
    with assms have "x < 0" by simp
    then show ?thesis
      using v by (simp add: round_double_def Let_def e_def [symmetric] m_def [symmetric])
  qed
qed

lemma round_double_exact_pos:
  assumes m: "0 < m" "m \<le> 2 ^ 53" and e: "- 1074 \<le> e"
    and b: "of_int m * 2 powi e < (2::rat) powi 1024"
  shows "round_double (of_int m * 2 powi e) = Num (of_int m * 2 powi e)"
proof -
  define x :: rat where "x = of_int m * 2 powi e"
  define e' where "e' = max (floor_log2 x - 52) (- 1074)"
  have x: "0 < x" using m by (simp add: x_def)
  have "(of_int m :: rat) \<le> of_int (2 ^ 53)" using m by (simp only: of_int_le_iff)
  then have "(of_int m :: rat) \<le> 2 powi 53" by simp
  then have "x \<le> 2 powi 53 * 2 powi e" unfolding x_def by (intro mult_right_mono) auto
  then have xu: "x \<le> 2 powi (e + 53)" by (simp add: power_int_add algebra_simps)
  from floor_log2_bounds [OF x] xu have "(2::rat) powi floor_log2 x \<le> 2 powi (e + 53)" by simp
  then have fl: "floor_log2 x \<le> e + 53" by (simp only: p2_le_iff)
  have "\<exists>n. x / 2 powi e' = of_int n"
  proof (cases "e' \<le> e")
    case True
    have "x / 2 powi e' = of_int m * 2 powi (e - e')"
      by (simp add: x_def power_int_diff)
    also have "(2::rat) powi (e - e') = 2 ^ nat (e - e')"
      using True by (simp add: power_int_def)
    finally have "x / 2 powi e' = of_int (m * 2 ^ nat (e - e'))" by simp
    then show ?thesis ..
  next
    case False
    with fl e have f: "floor_log2 x = e + 53" and e': "e' = e + 1"
      by (simp_all add: e'_def max_def split: if_splits)
    from floor_log2_bounds [OF x] f xu have "x = 2 powi (e + 53)" by simp
    then have "x / 2 powi e' = 2 powi 52"
      by (simp add: e' power_int_diff [symmetric])
    then have "x / 2 powi e' = of_int (2 ^ 52)" by simp
    then show ?thesis ..
  qed
  then obtain n where n: "x / 2 powi e' = of_int n" ..
  then have xn: "x = of_int n * 2 powi e'" by (simp add: field_simps)
  with x have n0: "n \<noteq> 0" by auto
  have "round_double x = Num x"
    using b n0 unfolding round_double_pos [OF x] e'_def [symmetric] Let_def n rhe_of_int
    by (simp add: xn [symmetric] x_def)
  then show ?thesis by (simp add: x_def)
qed

lemma round_double_exact_neg:
  assumes "0 < m" "m \<le> 2 ^ 53" "- 1074 \<le> e" "of_int m * 2 powi e < (2::rat) powi 1024"
  shows "round_double (- (of_int m * 2 powi e)) = Num (- (of_int m * 2 powi e))"
proof -
  have "of_int m * (2::rat) powi e \<noteq> 0" using assms(1) by simp
  then show ?thesis
    using round_double_minus [of "of_int m * 2 powi e"] round_double_exact_pos [OF assms]
    by simp
qed

lemma round_double_dyadic:
  assumes "r = of_int m * 2 powi e \<or> r = - (of_int m * 2 powi e)"
    "0 < m" "m \<le> 2 ^ 53" "- 1074 \<le> e" "of_int m * 2 powi e < (2::rat) powi 1024"
  shows "round_double r = Num r"
  using assms(1) round_double_exact_pos [OF assms(2-5)] round_double_exact_neg [OF assms(2-5)]
  by auto

lemma round_double_int:
  assumes "\<bar>m\<bar> \<le> 2 ^ 53"
  shows "round_double (of_int m) = Num (of_int m)"
proof (cases "m = 0")
  case True
  then show ?thesis by (simp add: round_double_def)
next
  case False
  have "(of_int \<bar>m\<bar> :: rat) \<le> of_int (2 ^ 53)" using assms by (simp only: of_int_le_iff)
  also have "(of_int (2 ^ 53) :: rat) < 2 powi 1024" by simp
  finally have b: "of_int \<bar>m\<bar> * 2 powi 0 < (2::rat) powi 1024" by simp
  have r: "(of_int m :: rat) = of_int \<bar>m\<bar> * 2 powi 0 \<or> of_int m = - (of_int \<bar>m\<bar> * 2 powi 0)"
    by (cases "0 \<le> m") simp_all
  have p: "0 < \<bar>m\<bar>" using False by simp
  have e: "- 1074 \<le> (0::int)" by simp
  show ?thesis
    using r p assms e b by (rule round_double_dyadic)
qed

lemma round_double_is_double: "is_double (round_double x)"
proof -
  have pos: "is_double (round_double x)" if x: "0 < x" for x
  proof -
    define e where "e = max (floor_log2 x - 52) (- 1074)"
    define m where "m = round_half_even (x / 2 powi e)"
    have e: "- 1074 \<le> e" by (simp add: e_def)
    have "floor_log2 x + 1 \<le> e + 53" by (simp add: e_def)
    then have "(2::rat) powi (floor_log2 x + 1) \<le> 2 powi (e + 53)" by (simp only: p2_le_iff)
    with floor_log2_bounds [OF x] have "x < 2 powi (e + 53)" by simp
    then have "x < 2 powi 53 * 2 powi e" by (simp add: power_int_add algebra_simps)
    then have "x / 2 powi e < 2 powi 53" by (simp add: field_simps)
    then have "x / 2 powi e \<le> of_int (2 ^ 53)" by simp
    then have m1: "m \<le> 2 ^ 53" unfolding m_def by (rule rhe_le)
    have "of_int 0 \<le> x / 2 powi e" using x by simp
    then have m0: "0 \<le> m" unfolding m_def by (rule rhe_ge)
    show ?thesis
    proof (cases "m = 0 \<or> (2::rat) powi 1024 \<le> of_int m * 2 powi e")
      case True
      then show ?thesis
        unfolding round_double_pos [OF x] e_def [symmetric] Let_def m_def [symmetric]
        by (auto simp: is_double_def round_double_def)
    next
      case False
      then have "0 < m" "of_int m * 2 powi e < (2::rat) powi 1024" using m0 by auto
      then have "round_double (of_int m * 2 powi e) = Num (of_int m * 2 powi e)"
        using m1 e by (intro round_double_exact_pos)
      then show ?thesis
        using False
        unfolding round_double_pos [OF x] e_def [symmetric] Let_def m_def [symmetric]
        by (simp add: is_double_def)
    qed
  qed
  have negd: "is_double (neg y)" if "is_double y" for y
  proof (cases y)
    case (Num a)
    show ?thesis
    proof (cases "a = 0")
      case True
      then show ?thesis using Num by (simp add: is_double_def)
    next
      case False
      then show ?thesis
        using Num that round_double_minus [of a] by (simp add: is_double_def)
    qed
  qed (simp_all add: is_double_def round_double_def)
  consider "x = 0" | "0 < x" | "x < 0" by linarith
  then show ?thesis
  proof cases
    case 1
    then show ?thesis by (simp add: is_double_def round_double_def)
  next
    case 2
    then show ?thesis by (rule pos)
  next
    case 3
    then have "is_double (round_double (- x))" by (intro pos) simp
    then have "is_double (neg (round_double (- x)))" by (rule negd)
    moreover have "round_double x = neg (round_double (- x))"
      using 3 round_double_minus [of "- x"] by simp
    ultimately show ?thesis by simp
  qed
qed

lemma round_double_near:
  assumes e: "- 1074 \<le> e" and lo: "2 powi (e + 52) \<le> x" and up: "x < 2 powi (e + 53)"
    and m: "\<bar>x / 2 powi e - of_int m\<bar> < 1 / 2"
    and b: "of_int m * 2 powi e < (2::rat) powi 1024"
  shows "round_double x = Num (of_int m * 2 powi e)"
proof -
  have "(0::rat) < 2 powi (e + 52)" by simp
  then have x: "0 < x" using lo by (rule less_le_trans)
  have "floor_log2 x = e + 52" using lo up by (intro floor_log2_eq) (simp_all add: add.commute)
  then have e': "max (floor_log2 x - 52) (- 1074) = e" using e by simp
  have r: "round_half_even (x / 2 powi e) = m" using m by (rule rhe_near)
  have "(2::rat) powi 52 \<le> x / 2 powi e" using lo by (rule p2_div_le)
  moreover have "(1::rat) \<le> 2 powi 52" by simp
  ultimately have "(1::rat) \<le> x / 2 powi e" by (rule order_trans [rotated])
  with m have "(0::rat) < of_int m" by linarith
  then have "m \<noteq> 0" by auto
  then show ?thesis
    using b unfolding round_double_pos [OF x] e' Let_def r by simp
qed

text \<open>
  Gradual underflow: every double is a multiple of \<open>2^-1074\<close>, and a value of that
  magnitude or more never rounds to a zero, so the difference of two doubles in strict
  order is not a zero.
\<close>

lemma round_double_nonzero:
  assumes "2 powi (- 1074) \<le> \<bar>x\<bar>"
  shows "\<not> is_zero (round_double x) \<and> round_double x \<noteq> NaN"
proof -
  have pos: "\<not> is_zero (round_double x) \<and> round_double x \<noteq> NaN"
    if a: "2 powi (- 1074) \<le> x" for x :: rat
  proof -
    have "(0::rat) < 2 powi (- 1074)" by (rule zero_less_power_int) simp
    then have x: "0 < x" using a by (rule less_le_trans)
    define e where "e = max (floor_log2 x - 52) (- 1074)"
    define m where "m = round_half_even (x / 2 powi e)"
    have "2 powi e \<le> x"
    proof (cases "floor_log2 x - 52 \<le> - 1074")
      case True
      then have "e = - 1074" by (simp add: e_def)
      then show ?thesis using a by simp
    next
      case False
      then have "e = floor_log2 x - 52" by (simp add: e_def)
      then have "e \<le> floor_log2 x" by simp
      then have "(2::rat) powi e \<le> 2 powi floor_log2 x" by (simp only: p2_le_iff)
      with floor_log2_bounds [OF x] show ?thesis by simp
    qed
    then have "of_int 1 \<le> x / 2 powi e" by (simp add: field_simps)
    then have "1 \<le> m" unfolding m_def by (rule rhe_ge)
    then have "m \<noteq> 0" "rat_of_int m * 2 powi e \<noteq> 0" by simp_all
    then show ?thesis
      unfolding round_double_pos [OF x] e_def [symmetric] Let_def m_def [symmetric]
      by simp
  qed
  show ?thesis
  proof (cases "0 \<le> x")
    case True
    with assms show ?thesis by (intro pos) simp
  next
    case False
    with assms have "2 powi (- 1074) \<le> - x" by simp
    then have p: "\<not> is_zero (round_double (- x)) \<and> round_double (- x) \<noteq> NaN" by (rule pos)
    have "round_double x = neg (round_double (- x))"
      using False round_double_minus [of "- x"] by simp
    with p show ?thesis by (cases "round_double (- x)") (auto split: if_splits)
  qed
qed

lemma double_grid:
  assumes "round_double a = Num a"
  shows "\<exists>n. a = of_int n * 2 powi (- 1074)"
proof -
  have pos: "\<exists>n. a = of_int n * 2 powi (- 1074)" if x: "0 < a" and r: "round_double a = Num a"
    for a :: rat
  proof -
    define e where "e = max (floor_log2 a - 52) (- 1074)"
    define m where "m = round_half_even (a / 2 powi e)"
    have e: "- 1074 \<le> e" by (simp add: e_def)
    from r have "a = of_int m * 2 powi e"
      unfolding round_double_pos [OF x] e_def [symmetric] Let_def m_def [symmetric]
      using x by (auto split: if_splits)
    also have "(2::rat) powi e = 2 powi (e + 1074) * 2 powi (- 1074)"
      by (rule p2_split)
    also have "(2::rat) powi (e + 1074) = of_int (2 ^ nat (e + 1074))"
      using e by (simp add: power_int_def)
    finally have "a = of_int (m * 2 ^ nat (e + 1074)) * 2 powi (- 1074)"
      by (simp add: mult.assoc)
    then show ?thesis ..
  qed
  consider "a = 0" | "0 < a" | "a < 0" by linarith
  then show ?thesis
  proof cases
    case 1
    then have "a = of_int 0 * 2 powi (- 1074)" by simp
    then show ?thesis ..
  next
    case 2
    then show ?thesis using assms by (rule pos)
  next
    case 3
    then have "round_double (- a) = Num (- a)"
      using assms round_double_minus [of a] by simp
    with 3 have "\<exists>n. - a = of_int n * 2 powi (- 1074)" by (intro pos) simp_all
    then obtain n where "- a = of_int n * 2 powi (- 1074)" ..
    then have "a = of_int (- n) * 2 powi (- 1074)" by simp
    then show ?thesis ..
  qed
qed

lemma val_grid:
  assumes "is_double x"
  shows "\<exists>n. val x = of_int n * 2 powi (- 1074)"
proof (cases x)
  case (Num a)
  then show ?thesis using assms double_grid [of a] by (simp add: is_double_def)
qed (auto intro: exI [of _ 0])

lemma grid_gap:
  assumes "a = of_int n * 2 powi (- 1074)" "b = of_int k * 2 powi (- 1074)" "a < (b::rat)"
  shows "2 powi (- 1074) \<le> b - a"
proof -
  have p: "(0::rat) < 2 powi (- 1074)" by (rule zero_less_power_int) simp
  from assms have "of_int n * 2 powi (- 1074) < (of_int k :: rat) * 2 powi (- 1074)" by simp
  with p have "(of_int n :: rat) < of_int k" by (simp only: mult_less_cancel_right_pos)
  then have "n + 1 \<le> k" by simp
  then have "(of_int (n + 1) :: rat) \<le> of_int k" by (simp only: of_int_le_iff)
  then have "(1::rat) \<le> of_int k - of_int n" by simp
  then have "1 * 2 powi (- 1074) \<le> (of_int k - of_int n) * (2::rat) powi (- 1074)"
    using p by (intro mult_right_mono) simp_all
  then show ?thesis using assms by (simp add: algebra_simps)
qed

lemma val_neg: "val (neg x) = - val x"
  by (cases x) simp_all

lemma sub_lt_nonzero:
  assumes "is_double x" "is_double y" "lt x y"
  shows "\<not> is_zero (sub y x) \<and> sub y x \<noteq> NaN"
proof (cases "is_finite x \<and> is_finite y")
  case False
  then show ?thesis using assms(3)
    by (cases x; cases y) (auto simp: sub_def add_def)
next
  case True
  then have v: "val x < val y" using assms(3) by (cases x; cases y) simp_all
  obtain n k where "val x = of_int n * 2 powi (- 1074)" "val y = of_int k * 2 powi (- 1074)"
    using val_grid [OF assms(1)] val_grid [OF assms(2)] by blast
  then have "2 powi (- 1074) \<le> val y - val x" using v by (rule grid_gap)
  then have "2 powi (- 1074) \<le> \<bar>val y - val x\<bar>" by simp
  then have r: "\<not> is_zero (round_double (val y - val x)) \<and> round_double (val y - val x) \<noteq> NaN"
    by (rule round_double_nonzero)
  have "sub y x = round_double (val y - val x)"
    using True v by (cases x; cases y) (auto simp: sub_def add_def)
  with r show ?thesis by simp
qed

text \<open>Small integers and fractions are doubles.\<close>

lemma round_double_small [simp]:
  "round_double 1 = Num 1" "round_double 2 = Num 2" "round_double 3 = Num 3"
  "round_double 20 = Num 20"
  using round_double_int [of 1] round_double_int [of 2] round_double_int [of 3]
    round_double_int [of 20]
  by simp_all

lemma round_double_fracs [simp]:
  "round_double (1 / 2) = Num (1 / 2)" "round_double (- (1 / 2)) = Num (- (1 / 2))"
  "round_double (1 / 4) = Num (1 / 4)"
  by (rule round_double_dyadic [where m = 1 and e = "- 1"], simp_all)
     (rule round_double_dyadic [where m = 1 and e = "- 1"], simp_all,
      rule round_double_dyadic [where m = 1 and e = "- 2"], simp_all)

lemma round_double_more [simp]:
  "round_double 4 = Num 4" "round_double (- 1) = Num (- 1)" "round_double (3 / 4) = Num (3 / 4)"
proof -
  show "round_double 4 = Num 4" using round_double_int [of 4] by simp
  show "round_double (- 1) = Num (- 1)" using round_double_int [of "- 1"] by simp
  show "round_double (3 / 4) = Num (3 / 4)"
    by (rule round_double_dyadic [where m = 3 and e = "- 2"]) simp_all
qed

text \<open>Operations with a special operand.\<close>

lemma is_double_special [simp]:
  "is_double NaN" "is_double PosInf" "is_double NegInf" "is_double NegZero" "is_double (Num 0)"
  by (simp_all add: is_double_def round_double_def)

lemma mul_one_right: "is_double y \<Longrightarrow> mul y (Num 1) = y"
  by (cases y) (auto simp: mul_def is_double_def zero_of_def inf_of_def)

lemma fdiv_is_double: "is_double (fdiv x y)"
  by (simp add: fdiv_def zero_of_def inf_of_def round_double_is_double)

lemma mul_zero_right: "is_finite d \<Longrightarrow> is_zero (mul d (Num 0))"
  by (cases d) (simp_all add: mul_def zero_of_def)

lemma fdiv_zero_left: "is_zero z \<Longrightarrow> \<not> is_zero d \<Longrightarrow> d \<noteq> NaN \<Longrightarrow> is_zero (fdiv z d)"
  by (cases z; cases d) (auto simp: fdiv_def zero_of_def)

lemma add_one_zero: "is_zero z \<Longrightarrow> add (Num 1) z = Num 1"
  by (cases z) (auto simp: add_def)

lemma sub_one_one: "sub (Num 1) (Num 1) = Num 0"
  by (simp add: sub_def add_def)

text \<open>The doubles of the literals and of the intermediate results of the worked examples.\<close>

lemma lit_simple: "lit 1 = Num 1" "lit 2 = Num 2" "lit 20 = Num 20" "lit (1 / 2) = Num (1 / 2)"
  "lit (1 / 4) = Num (1 / 4)"
  by (simp_all add: lit_def)

lemma lit_tenth: "lit (1 / 10) = Num (3602879701896397 / 36028797018963968)"
proof -
  have "round_double (1 / 10) = Num (of_int 7205759403792794 * 2 powi (- 56))"
  proof (rule round_double_near)
    show "- 1074 \<le> (- 56 :: int)" by simp
    show "(2::rat) powi (- 56 + 52) \<le> 1 / 10" by simp
    show "(1 / 10 :: rat) < 2 powi (- 56 + 53)" by simp
    show "\<bar>1 / 10 / 2 powi (- 56) - rat_of_int 7205759403792794\<bar> < 1 / 2" by simp
    show "rat_of_int 7205759403792794 * 2 powi (- 56) < 2 powi 1024" by simp
  qed
  then show ?thesis by (simp add: lit_def)
qed

lemma lit_twentieth: "lit (1 / 20) = Num (3602879701896397 / 72057594037927936)"
proof -
  have "round_double (1 / 20) = Num (of_int 7205759403792794 * 2 powi (- 57))"
  proof (rule round_double_near)
    show "- 1074 \<le> (- 57 :: int)" by simp
    show "(2::rat) powi (- 57 + 52) \<le> 1 / 20" by simp
    show "(1 / 20 :: rat) < 2 powi (- 57 + 53)" by simp
    show "\<bar>1 / 20 / 2 powi (- 57) - rat_of_int 7205759403792794\<bar> < 1 / 2" by simp
    show "rat_of_int 7205759403792794 * 2 powi (- 57) < 2 powi 1024" by simp
  qed
  then show ?thesis by (simp add: lit_def)
qed

lemma two_minus_tenth: "round_double (2 - 3602879701896397 / 36028797018963968) = Num (4278419646001971 / 2251799813685248)"
proof -
  have "round_double (2 - 3602879701896397 / 36028797018963968) = Num (of_int 8556839292003942 * 2 powi (- 52))"
  proof (rule round_double_near)
    show "- 1074 \<le> (- 52 :: int)" by simp
    show "(2::rat) powi (- 52 + 52) \<le> 2 - 3602879701896397 / 36028797018963968" by simp
    show "(2 - 3602879701896397 / 36028797018963968 :: rat) < 2 powi (- 52 + 53)" by simp
    show "\<bar>(2 - 3602879701896397 / 36028797018963968) / 2 powi (- 52) - rat_of_int 8556839292003942\<bar> < 1 / 2" by simp
    show "rat_of_int 8556839292003942 * 2 powi (- 52) < 2 powi 1024" by simp
  qed
  then show ?thesis by simp
qed

lemma half_of_that:
  "round_double (- (4278419646001971 / 4503599627370496))
     = Num (- (4278419646001971 / 4503599627370496))"
  by (rule round_double_dyadic [where m = 8556839292003942 and e = "- 53"]) simp_all

lemma recip_twentieth: "round_double (72057594037927936 / 3602879701896397) = Num 20"
proof -
  have "round_double (72057594037927936 / 3602879701896397) = Num (of_int 5629499534213120 * 2 powi (- 48))"
  proof (rule round_double_near)
    show "- 1074 \<le> (- 48 :: int)" by simp
    show "(2::rat) powi (- 48 + 52) \<le> 72057594037927936 / 3602879701896397" by simp
    show "(72057594037927936 / 3602879701896397 :: rat) < 2 powi (- 48 + 53)" by simp
    show "\<bar>72057594037927936 / 3602879701896397 / 2 powi (- 48) - rat_of_int 5629499534213120\<bar> < 1 / 2" by simp
    show "rat_of_int 5629499534213120 * 2 powi (- 48) < 2 powi 1024" by simp
  qed
  then show ?thesis by simp
qed

lemma round_double_overflow: "round_double (2 ^ 1023 + 2 ^ 1023) = PosInf"
proof -
  define x :: rat where "x = 2 ^ 1023 + 2 ^ 1023"
  have x: "x = 2 powi 1024" by (simp add: x_def)
  have p: "0 < x" by (simp add: x_def)
  have "floor_log2 x = 1024"
    by (rule floor_log2_eq) (simp_all add: x_def)
  then have e: "max (floor_log2 x - 52) (- 1074) = 972" by simp
  have "x / 2 powi 972 = of_int (2 ^ 52)" by (simp add: x_def)
  then have r: "round_half_even (x / 2 powi 972) = 2 ^ 52" by (simp only: rhe_of_int)
  have "round_double x = PosInf"
    unfolding round_double_pos [OF p] e Let_def r by (simp add: x_def)
  then show ?thesis by (simp add: x_def)
qed

lemma is_double_pow: "is_double (Num (2 ^ 1023))" "is_double (Num (- (2 ^ 1023)))"
proof -
  have a: "round_double (2 ^ 1023) = Num (2 ^ 1023)"
    by (rule round_double_dyadic [where m = 1 and e = 1023]) simp_all
  have b: "round_double (- (2 ^ 1023)) = Num (- (2 ^ 1023))"
    by (rule round_double_dyadic [where m = 1 and e = 1023]) simp_all
  show "is_double (Num (2 ^ 1023))" using a by (simp add: is_double_def)
  show "is_double (Num (- (2 ^ 1023)))" using b by (simp add: is_double_def)
qed

section \<open>The stored settings and their defaults\<close>

lemma w_demo_cfg:
  "zoomFloor w_demo = Num 0" "zoomCeil w_demo = Num 2" "minScale w_demo = Num 1"
  "maxScale w_demo = Num 3" "hudScale w_demo = Num 2" "enabled w_demo"
  by (simp_all add: w_demo_def settings_demo_def zoomFloor_def zoomCeil_def minScale_def
      maxScale_def hudScale_def enabled_def pinfix_def get_prop_def coalesce_def)

lemma w_curve_cfg:
  "zoomFloor w_curve = Num 1" "zoomCeil w_curve = Num 4" "minScale w_curve = Num 2"
  "maxScale w_curve = Num 5" "hudScale w_curve = Num 2" "enabled w_curve"
  by (simp_all add: w_curve_def zoomFloor_def zoomCeil_def minScale_def
      maxScale_def hudScale_def enabled_def pinfix_def get_prop_def coalesce_def)

lemma w_off_cfg:
  "zoomFloor w_off = Num 0" "zoomCeil w_off = Num 2" "minScale w_off = Num 1"
  "maxScale w_off = Num 3" "hudScale w_off = Num 2" "\<not> enabled w_off"
  by (simp_all add: w_off_def zoomFloor_def zoomCeil_def minScale_def
      maxScale_def hudScale_def enabled_def pinfix_def get_prop_def coalesce_def)

lemma w_flat_cfg:
  "zoomFloor w_flat = Num 1" "zoomCeil w_flat = Num 1" "minScale w_flat = Num 1"
  "maxScale w_flat = Num 1"
  by (simp_all add: w_flat_def zoomFloor_def zoomCeil_def minScale_def
      maxScale_def pinfix_def get_prop_def coalesce_def)

lemma w_unit_cfg:
  "zoomFloor w_unit = Num 0" "zoomCeil w_unit = Num 4" "minScale w_unit = Num 1"
  "maxScale w_unit = Num 1"
  by (simp_all add: w_unit_def zoomFloor_def zoomCeil_def minScale_def
      maxScale_def pinfix_def get_prop_def coalesce_def)

lemma w_huge_cfg:
  "zoomFloor w_huge = Num (- (2 ^ 1023))" "zoomCeil w_huge = Num (2 ^ 1023)"
  "minScale w_huge = Num 1" "maxScale w_huge = Num 1"
  by (simp_all add: w_huge_def zoomFloor_def zoomCeil_def minScale_def
      maxScale_def pinfix_def get_prop_def coalesce_def)

lemma w_example_cfg:
  "zoomFloor w_example = lit (1 / 10)" "zoomCeil w_example = lit 2" "minScale w_example = lit 1"
  "maxScale w_example = lit (1 / 2)"
  by (simp_all add: w_example_def zoomFloor_def zoomCeil_def minScale_def
      maxScale_def pinfix_def get_prop_def coalesce_def)

lemma get_prop_object:
  "map_of fl name = Some (JObj kvs) \<Longrightarrow> opt_prop (get_prop fl name) f = get_prop kvs f"
  by (simp add: get_prop_def)

lemma get_prop_no_object:
  "\<forall>kvs. map_of fl name \<noteq> Some (JObj kvs) \<Longrightarrow> opt_prop (get_prop fl name) f = JUndefined"
  by (cases "get_prop fl name") (auto simp: get_prop_def split: option.splits)

text \<open>
  Claim C6. The defaults apply field by field. When the flags hold a \<open>pinfix\<close> record,
  each getter reads its own field of the record: a field that is absent (or null) gives
  the default, which is the minimum canvas zoom 0.1 for \<open>zoomFloor\<close>, the maximum canvas
  zoom for \<open>zoomCeil\<close> and 1 for \<open>minScale\<close>, \<open>maxScale\<close> and \<open>hudScale\<close>; a field
  that is present gives its own number; \<open>enabled\<close> is the truthiness of the \<open>enable\<close>
  field, false when the field is absent. When the flags hold no \<open>pinfix\<close> record at all,
  every getter gives its default and \<open>enabled\<close> is false.
\<close>

theorem settings_defaults:
  "(map_of (flags w) ''pinfix'' = Some (JObj kvs) \<longrightarrow>
      zoomFloor w = (case map_of kvs ''zoomFloor'' of None \<Rightarrow> lit (1 / 10)
                     | Some v \<Rightarrow> if nullish v then lit (1 / 10) else Number v)
      \<and> zoomCeil w = (case map_of kvs ''zoomCeil'' of None \<Rightarrow> maxZoom w
                     | Some v \<Rightarrow> if nullish v then maxZoom w else Number v)
      \<and> minScale w = (case map_of kvs ''minScale'' of None \<Rightarrow> Num 1
                     | Some v \<Rightarrow> if nullish v then Num 1 else Number v)
      \<and> maxScale w = (case map_of kvs ''maxScale'' of None \<Rightarrow> Num 1
                     | Some v \<Rightarrow> if nullish v then Num 1 else Number v)
      \<and> hudScale w = (case map_of kvs ''hudScale'' of None \<Rightarrow> Num 1
                     | Some v \<Rightarrow> if nullish v then Num 1 else Number v)
      \<and> enabled w = (case map_of kvs ''enable'' of None \<Rightarrow> False | Some v \<Rightarrow> truthy v))
   \<and> ((\<forall>kvs'. map_of (flags w) ''pinfix'' \<noteq> Some (JObj kvs')) \<longrightarrow>
      zoomFloor w = lit (1 / 10) \<and> zoomCeil w = maxZoom w \<and> minScale w = Num 1
      \<and> maxScale w = Num 1 \<and> hudScale w = Num 1 \<and> \<not> enabled w)
   \<and> minCanvScale = lit (1 / 10) \<and> maxCanvScale w = maxZoom w"
proof -
  have a: "map_of (flags w) ''pinfix'' = Some (JObj kvs) \<Longrightarrow> pinfix w f = get_prop kvs f" for f
    unfolding pinfix_def by (rule get_prop_object)
  have b: "\<forall>kvs'. map_of (flags w) ''pinfix'' \<noteq> Some (JObj kvs') \<Longrightarrow> pinfix w f = JUndefined" for f
    unfolding pinfix_def by (rule get_prop_no_object)
  show ?thesis
    by (auto simp: a b zoomFloor_def zoomCeil_def minScale_def maxScale_def hudScale_def
        enabled_def coalesce_def get_prop_def minCanvScale_def maxCanvScale_def
        split: option.splits)
qed

theorem settings_defaults_witness:
  "map_of (flags w_partial) ''pinfix''
     = Some (JObj [(''enable'', JBool True), (''maxScale'', JNum (Num 3)), (''hudScale'', JNull)])
   \<and> enabled w_partial \<and> maxScale w_partial = Num 3 \<and> hudScale w_partial = Num 1
   \<and> minScale w_partial = Num 1 \<and> zoomFloor w_partial = lit (1 / 10)
   \<and> zoomCeil w_partial = Num 3
   \<and> map_of (flags w_fresh) ''pinfix'' = None
   \<and> zoomFloor w_fresh = lit (1 / 10) \<and> zoomCeil w_fresh = Num 3 \<and> minScale w_fresh = Num 1
   \<and> maxScale w_fresh = Num 1 \<and> hudScale w_fresh = Num 1 \<and> \<not> enabled w_fresh"
proof -
  have p: "map_of (flags w_partial) ''pinfix''
     = Some (JObj [(''enable'', JBool True), (''maxScale'', JNum (Num 3)), (''hudScale'', JNull)])"
    by (simp add: w_partial_def)
  have f: "map_of (flags w_fresh) ''pinfix'' = None"
    by (simp add: w_fresh_def)
  have m: "maxZoom w_partial = Num 3" "maxZoom w_fresh = Num 3"
    by (simp_all add: w_partial_def w_fresh_def w_demo_def)
  from f have n: "\<forall>kvs'. map_of (flags w_fresh) ''pinfix'' \<noteq> Some (JObj kvs')" by simp
  note t1 = settings_defaults [of w_partial, THEN conjunct1, rule_format, OF p]
  note t2 = settings_defaults [of w_fresh, THEN conjunct2, THEN conjunct1, THEN mp, OF n]
  show ?thesis
    using p f t1 t2 by (simp add: m)
qed

text \<open>
  Claim C9. \<open>getSceneTemplateData\<close> takes the defaults all or nothing: a truthy
  \<open>data.entity?.flags?.pinfix\<close> is returned as it is, so every property read from the
  result is the property of the stored record, undefined when the record lacks it; the
  record of defaults is returned only when that value is falsy (absent).
\<close>

theorem template_data_all_or_nothing:
  "(truthy (opt_prop (opt_prop (get_prop data ''entity'') ''flags'') ''pinfix'') \<longrightarrow>
      getSceneTemplateData w data
        = opt_prop (opt_prop (get_prop data ''entity'') ''flags'') ''pinfix''
      \<and> (\<forall>name. opt_prop (getSceneTemplateData w data) name
            = opt_prop (opt_prop (opt_prop (get_prop data ''entity'') ''flags'') ''pinfix'') name))
   \<and> (\<not> truthy (opt_prop (opt_prop (get_prop data ''entity'') ''flags'') ''pinfix'') \<longrightarrow>
      getSceneTemplateData w data =
        JObj [(''enable'', JBool False), (''zoomFloor'', JNum minCanvScale),
              (''zoomCeil'', JNum (maxCanvScale w)), (''minScale'', JNum (Num 1)),
              (''maxScale'', JNum (Num 1)), (''hudScale'', JNum (Num 1))])"
  by (simp add: getSceneTemplateData_def Let_def)

theorem template_data_all_or_nothing_witness:
  "truthy (opt_prop (opt_prop (get_prop data_partial ''entity'') ''flags'') ''pinfix'')
   \<and> getSceneTemplateData w_demo data_partial = JObj [(''enable'', JBool True)]
   \<and> opt_prop (getSceneTemplateData w_demo data_partial) ''minScale'' = JUndefined
   \<and> minScale_value (getSceneHtml (getSceneTemplateData w_demo data_partial)) = JUndefined"
proof -
  have p: "opt_prop (opt_prop (get_prop data_partial ''entity'') ''flags'') ''pinfix''
             = JObj [(''enable'', JBool True)]"
    by (simp add: data_partial_def get_prop_def)
  have t: "truthy (JObj [(''enable'', JBool True)])"
    by simp
  from template_data_all_or_nothing [of data_partial w_demo, unfolded p] t
  have "getSceneTemplateData w_demo data_partial = JObj [(''enable'', JBool True)]"
    by blast
  then show ?thesis
    unfolding p by (simp add: getSceneHtml_def get_prop_def)
qed

section \<open>The scale calculation\<close>

lemma lt_le_not_lt: "lt x a \<Longrightarrow> le a b \<Longrightarrow> \<not> lt b x"
  by (cases x; cases a; cases b) (auto simp: le_def)

text \<open>
  Claim C1. For every zoom and configuration the pin scale is computed by the pipeline:
  the zoom is clamped with \<open>zoomFloor\<close> and \<open>zoomCeil\<close>; the clamped value \<open>c\<close> is
  mapped linearly from \<open>[zoomFloor, zoomCeil]\<close> to \<open>[minScale, maxScale]\<close>, that is
  \<open>noteScaleFactor = minScale + (c - zoomFloor) * (maxScale - minScale) / (zoomCeil - zoomFloor)\<close>;
  and \<open>noteScaleConfigured\<close> is \<open>(1 / zoom) * noteScaleFactor\<close>. On an interval with
  \<open>zoomFloor \<le> zoomCeil\<close> the clamp pulls a zoom below the floor to the floor and a zoom
  above the ceiling to the ceiling, and leaves a zoom inside the interval unchanged.
\<close>

theorem note_scale_pipeline:
  "noteScaleFactor w zoom =
     add (minScale w)
       (fdiv (mul (sub (clampZoom w zoom) (zoomFloor w)) (sub (maxScale w) (minScale w)))
             (sub (zoomCeil w) (zoomFloor w)))
   \<and> map_range (f0, f1) (t0, t1) s = add t0 (fdiv (mul (sub s f0) (sub t1 t0)) (sub f1 f0))
   \<and> noteScaleConfigured w zoom = mul (fdiv (Num 1) zoom) (noteScaleFactor w zoom)
   \<and> (le (zoomFloor w) (zoomCeil w) \<longrightarrow>
        (lt zoom (zoomFloor w) \<longrightarrow> clampZoom w zoom = zoomFloor w)
        \<and> (lt (zoomCeil w) zoom \<longrightarrow> clampZoom w zoom = zoomCeil w)
        \<and> (le (zoomFloor w) zoom \<and> le zoom (zoomCeil w) \<longrightarrow> clampZoom w zoom = zoom))"
proof -
  have "lt (zoomCeil w) zoom \<Longrightarrow> le (zoomFloor w) (zoomCeil w) \<Longrightarrow> \<not> lt zoom (zoomFloor w)"
    using lt_le_not_lt [of zoom "zoomFloor w" "zoomCeil w"] by blast
  then show ?thesis
    by (auto simp: noteScaleFactor_def remapZoom_def clampZoom_def noteScaleConfigured_def
        reciprocal_def clamped_def map_range_def le_def)
qed

theorem note_scale_pipeline_witness:
  "clampZoom w_demo (Num 4) = Num 2 \<and> noteScaleFactor w_demo (Num 4) = Num 3
   \<and> noteScaleConfigured w_demo (Num 4) = Num (3 / 4)
   \<and> clampZoom w_demo (Num (- 1)) = Num 0 \<and> noteScaleFactor w_demo (Num (- 1)) = Num 1
   \<and> noteScaleConfigured w_demo (Num (- 1)) = Num (- 1)
   \<and> clampZoom w_demo (Num 1) = Num 1 \<and> noteScaleFactor w_demo (Num 1) = Num 2
   \<and> noteScaleConfigured w_demo (Num 1) = Num 2"
proof -
  have i: "le (Num 0) (Num 2)" by (simp add: le_def)
  note a = note_scale_pipeline [of w_demo "Num 4", unfolded w_demo_cfg]
  note b = note_scale_pipeline [of w_demo "Num (- 1)", unfolded w_demo_cfg]
  note c = note_scale_pipeline [of w_demo "Num 1", unfolded w_demo_cfg]
  have ca: "clampZoom w_demo (Num 4) = Num 2" using a i by simp
  have cb: "clampZoom w_demo (Num (- 1)) = Num 0" using b i by simp
  have cc: "clampZoom w_demo (Num 1) = Num 1" using c i by (simp add: le_def)
  have fa: "noteScaleFactor w_demo (Num 4) = Num 3"
    unfolding a [THEN conjunct1] ca by (simp add: sub_def add_def mul_def fdiv_def)
  have fb: "noteScaleFactor w_demo (Num (- 1)) = Num 1"
    unfolding b [THEN conjunct1] cb by (simp add: sub_def add_def mul_def fdiv_def zero_of_def)
  have fc: "noteScaleFactor w_demo (Num 1) = Num 2"
    unfolding c [THEN conjunct1] cc by (simp add: sub_def add_def mul_def fdiv_def)
  have na: "noteScaleConfigured w_demo (Num 4) = Num (3 / 4)"
    unfolding a [THEN conjunct2, THEN conjunct2, THEN conjunct1] fa
    by (simp add: mul_def fdiv_def)
  have nb: "noteScaleConfigured w_demo (Num (- 1)) = Num (- 1)"
    unfolding b [THEN conjunct2, THEN conjunct2, THEN conjunct1] fb
    by (simp add: mul_def fdiv_def)
  have nc: "noteScaleConfigured w_demo (Num 1) = Num 2"
    unfolding c [THEN conjunct2, THEN conjunct2, THEN conjunct1] fc
    by (simp add: mul_def fdiv_def)
  show ?thesis using ca cb cc fa fb fc na nb nc by simp
qed

text \<open>
  Claim C2. \<open>hudScaleFactor\<close> is \<open>(1 / zoom) * hudScale\<close>; two scenes with the same
  \<open>hudScale\<close> get the same factor whatever their \<open>minScale\<close>, \<open>maxScale\<close>,
  \<open>zoomFloor\<close> and \<open>zoomCeil\<close> are.
\<close>

theorem hud_scale_reciprocal:
  "hudScaleFactor w zoom = mul (fdiv (Num 1) zoom) (hudScale w)
   \<and> (\<forall>w'. hudScale w' = hudScale w \<longrightarrow> hudScaleFactor w' zoom = hudScaleFactor w zoom)"
  by (simp add: hudScaleFactor_def noteScaleBasic_def reciprocal_def)

theorem hud_scale_reciprocal_witness:
  "zoomFloor w_curve \<noteq> zoomFloor w_demo \<and> zoomCeil w_curve \<noteq> zoomCeil w_demo
   \<and> minScale w_curve \<noteq> minScale w_demo \<and> maxScale w_curve \<noteq> maxScale w_demo
   \<and> hudScale w_curve = hudScale w_demo
   \<and> hudScaleFactor w_curve (Num 2) = hudScaleFactor w_demo (Num 2)"
  using hud_scale_reciprocal [of w_demo "Num 2"]
  by (simp add: w_demo_cfg w_curve_cfg)

section \<open>The range mapper on a degenerate interval\<close>

lemma sub_self_zero:
  assumes "js_eq f0 f1" "is_finite f0"
  shows "is_zero (sub f1 f0)"
  using assms
  by (cases f0; cases f1) (auto simp: js_eq_def sub_def add_def)

lemma sub_self_nan:
  assumes "js_eq f0 f1" "\<not> is_finite f0"
  shows "sub f1 f0 = NaN"
  using assms
  by (cases f0; cases f1) (auto simp: js_eq_def sub_def add_def)

lemma fdiv_by_zero: "is_zero d \<Longrightarrow> \<not> is_finite (fdiv n d)"
  by (cases d; cases n) (auto simp: fdiv_def inf_of_def)

lemma fdiv_by_nan: "fdiv n NaN = NaN"
  by (simp add: fdiv_def)

lemma add_nonfinite: "\<not> is_finite y \<Longrightarrow> \<not> is_finite (add x y)"
  by (cases y; cases x) (auto simp: add_def)

text \<open>
  Claim C8. \<open>map\<close> has no guard on its source interval and no error branch: when
  \<open>from[0] == from[1]\<close> the divisor \<open>from[1] - from[0]\<close> of two finite bounds is a
  zero, and the value returned is not finite (an infinity or NaN), whatever the target
  interval and the input are.
\<close>

theorem map_degenerate_interval:
  "js_eq f0 f1 \<Longrightarrow>
     \<not> is_finite (map_range (f0, f1) (t0, t1) s)
     \<and> (is_finite f0 \<longrightarrow> is_zero (sub f1 f0))"
proof (cases "is_finite f0")
  case True
  assume "js_eq f0 f1"
  then have "is_zero (sub f1 f0)"
    using True by (rule sub_self_zero)
  then show ?thesis
    by (simp add: map_range_def fdiv_by_zero add_nonfinite)
next
  case False
  assume "js_eq f0 f1"
  then have "sub f1 f0 = NaN"
    using False by (rule sub_self_nan)
  then show ?thesis
    using False by (simp add: map_range_def fdiv_by_nan add_nonfinite)
qed

theorem map_degenerate_interval_witness:
  "js_eq (Num 1) (Num 1) \<and> map_range (Num 1, Num 1) (Num 1, Num 3) (Num 1) = NaN
   \<and> is_zero (sub (Num 1) (Num 1))"
proof -
  have e: "js_eq (Num 1) (Num 1)"
    by (simp add: js_eq_def)
  have v: "map_range (Num 1, Num 1) (Num 1, Num 3) (Num 1) = NaN"
    by (simp add: map_range_def sub_def add_def mul_def fdiv_def zero_of_def)
  show ?thesis
    using e v map_degenerate_interval [OF e, of "Num 1" "Num 3" "Num 1"] by simp
qed

section \<open>Applying the scale to the pins\<close>

text \<open>
  Claim C10. After \<open>scaleNotes\<close> every note of the scene carries the one value
  \<open>noteScaleConfigured zoom\<close>, computed from the scene before the loop, in its \<open>x\<close> and
  in its \<open>y\<close> component, so the two components are equal.
\<close>

theorem scale_notes_uniform:
  "\<forall>n \<in> set (children (scaleNotes w zoom)).
     scale_x n = noteScaleConfigured w zoom \<and> scale_y n = noteScaleConfigured w zoom
     \<and> scale_x n = scale_y n"
  by (auto simp: scaleNotes_def scaleNote_def Let_def)

theorem scale_notes_uniform_witness:
  "length (children (scaleNotes w_demo (Num 2))) = 2
   \<and> scale_x (children (scaleNotes w_demo (Num 2)) ! 0) = noteScaleConfigured w_demo (Num 2)
   \<and> scale_y (children (scaleNotes w_demo (Num 2)) ! 0) = noteScaleConfigured w_demo (Num 2)
   \<and> scale_x (children (scaleNotes w_demo (Num 2)) ! 1)
       = scale_y (children (scaleNotes w_demo (Num 2)) ! 1)"
proof -
  have l: "length (children (scaleNotes w_demo (Num 2))) = 2"
    by (simp add: scaleNotes_def Let_def w_demo_def)
  then have "children (scaleNotes w_demo (Num 2)) ! 0 \<in> set (children (scaleNotes w_demo (Num 2)))"
    and "children (scaleNotes w_demo (Num 2)) ! 1 \<in> set (children (scaleNotes w_demo (Num 2)))"
    by simp_all
  then show ?thesis
    using l scale_notes_uniform [of w_demo "Num 2"] by blast
qed

lemma children_of_scaleNotes:
  "children (scaleNotes w s) = map (\<lambda>n. scaleNote n (noteScaleConfigured w s)) (children w)"
  by (simp add: scaleNotes_def Let_def)

lemma children_scaleHUD: "children (scaleHUD w i s) = children w"
  by (simp add: scaleHUD_def split: option.splits)

lemma children_resetHudScale: "children (resetHudScale w i) = children w"
  by (simp add: resetHudScale_def split: option.splits)

lemma children_resetHUDs: "children (resetHUDs w) = children w"
  by (simp add: resetHUDs_def huds_def children_resetHudScale)

lemma elements_scaleNotes: "elements (scaleNotes w s) = elements w"
  by (simp add: scaleNotes_def Let_def)

lemma elements_resetHUDs:
  "elements (resetHUDs w) i =
     (if i \<in> hud_id ` set huds \<and> elements w i \<noteq> None then Some Empty else elements w i)"
  by (auto simp: resetHUDs_def huds_def resetHudScale_def split: option.splits)

lemma note_scale_w_off: "noteScaleConfigured w_off (Num 1) = Num 2"
  by (simp add: noteScaleConfigured_def noteScaleFactor_def remapZoom_def clampZoom_def
      clamped_def map_range_def reciprocal_def w_off_cfg sub_def add_def mul_def fdiv_def)

section \<open>Resetting the scene\<close>

text \<open>
  Claim C3. \<open>reset\<close> is documented to put all pins back to normal size, and
  \<open>scaleNotes\<close> to take the scale to set the notes to; but \<open>scaleNotes 1\<close> writes
  \<open>noteScaleConfigured 1\<close> to the pins. In the scene \<open>w_off\<close> (scaling switched off,
  zoom interval \<open>[0, 2]\<close>, scales from 1 to 3) every pin has the scale 2 after
  \<open>reset\<close>, not 1. The mounted HUD is cleared as the documentation says.
\<close>

theorem reset_keeps_curve:
  "\<not> enabled w_off
   \<and> children (reset w_off)
       = [\<lparr>scale_x = Num 2, scale_y = Num 2\<rparr>, \<lparr>scale_x = Num 2, scale_y = Num 2\<rparr>]
   \<and> Num 2 \<noteq> Num 1
   \<and> elements (reset w_off) ''pin-cushion-hud'' = Some Empty"
proof -
  have c: "children w_off = [\<lparr>scale_x = Num 5, scale_y = Num 7\<rparr>, \<lparr>scale_x = Num 1, scale_y = Num 1\<rparr>]"
    by (simp add: w_off_def w_demo_def)
  have e: "elements w_off ''pin-cushion-hud'' = Some (OtherCss ''rotate(3deg)'')"
    by (simp add: w_off_def w_demo_def)
  have "children (reset w_off)
       = [\<lparr>scale_x = Num 2, scale_y = Num 2\<rparr>, \<lparr>scale_x = Num 2, scale_y = Num 2\<rparr>]"
    by (simp add: reset_def children_resetHUDs children_of_scaleNotes note_scale_w_off c scaleNote_def)
  moreover have "elements (reset w_off) ''pin-cushion-hud'' = Some Empty"
    by (simp add: reset_def elements_resetHUDs elements_scaleNotes e huds_def)
  ultimately show ?thesis
    by (simp add: w_off_cfg)
qed

section \<open>The handlers when scaling is switched off\<close>

lemma after_last_position:
  "is_form_group g \<Longrightarrow> \<not> list_ex is_form_group post \<Longrightarrow>
     after_last x (pre @ g # post) = pre @ g # x # post"
  by (induction pre) (auto simp: list_ex_iff)

lemma after_last_none: "\<not> list_ex is_form_group ys \<Longrightarrow> after_last x ys = ys"
  by (induction ys) (auto simp: list_ex_iff)

lemma hud_ids: "hud_id ` set huds = {''pin-cushion-hud'', ''poi-tp-ctx-menu''}"
  by (auto simp: huds_def)

text \<open>
  Not every handler is without effect when \<open>enable\<close> is false: in the scene \<open>w_off\<close>
  \<open>updateScene\<close> clears the transform of the mounted HUD.
\<close>

theorem update_scene_disabled_resets:
  "\<not> enabled w_off \<and> updateScene w_off \<noteq> w_off
   \<and> elements w_off ''pin-cushion-hud'' = Some (OtherCss ''rotate(3deg)'')
   \<and> elements (updateScene w_off) ''pin-cushion-hud'' = Some Empty"
proof -
  have el: "elements w_off ''pin-cushion-hud'' = Some (OtherCss ''rotate(3deg)'')"
    by (simp add: w_off_def w_demo_def)
  have "elements (updateScene w_off) ''pin-cushion-hud'' = Some Empty"
    by (simp add: updateScene_def w_off_cfg reset_def elements_resetHUDs elements_scaleNotes
        hud_ids el)
  moreover from this el have "elements (updateScene w_off) \<noteq> elements w_off"
    by (metis option.inject transform.distinct(3))
  then have "updateScene w_off \<noteq> w_off" by auto
  ultimately show ?thesis using el by (simp add: w_off_cfg)
qed

text \<open>
  Claim C4, as the handlers are written. When \<open>enable\<close> is false, \<open>canvasPan\<close> and
  \<open>renderHUD\<close> return at once, so a pan leaves every pin scale and every HUD transform
  as it was. \<open>updateScene\<close> runs \<open>reset\<close>: the transform of every known HUD that is
  mounted becomes empty, every other element, the flags, the maximum zoom and the stage
  scale stay as they were. \<open>renderSceneConfig\<close> never tests the flag: it puts its
  fragment directly after the last form group of the sheet, and leaves a sheet without
  a form group as it is.
\<close>

theorem disabled_entry_points:
  "\<not> enabled w \<Longrightarrow>
     canvasPan w pan_scale = w \<and> renderHUD w ident = w \<and> updateScene w = reset w
     \<and> (\<forall>i. elements (updateScene w) i =
           (if (i = ''pin-cushion-hud'' \<or> i = ''poi-tp-ctx-menu'') \<and> elements w i \<noteq> None
            then Some Empty else elements w i))
     \<and> flags (updateScene w) = flags w \<and> maxZoom (updateScene w) = maxZoom w
     \<and> stage_scale (updateScene w) = stage_scale w
     \<and> (\<forall>pre g post. html = pre @ g # post \<and> is_form_group g \<and> \<not> list_ex is_form_group post \<longrightarrow>
           renderSceneConfig w html data
             = pre @ g # PinFix (getSceneHtml (getSceneTemplateData w data)) # post)
     \<and> (\<not> list_ex is_form_group html \<longrightarrow> renderSceneConfig w html data = html)"
proof -
  assume d: "\<not> enabled w"
  have e: "elements (reset w) i =
           (if (i = ''pin-cushion-hud'' \<or> i = ''poi-tp-ctx-menu'') \<and> elements w i \<noteq> None
            then Some Empty else elements w i)" for i
    by (simp add: reset_def elements_resetHUDs elements_scaleNotes hud_ids)
  have f: "flags (reset w) = flags w \<and> maxZoom (reset w) = maxZoom w
           \<and> stage_scale (reset w) = stage_scale w"
    by (simp add: reset_def resetHUDs_def huds_def resetHudScale_def scaleNotes_def Let_def
        split: option.splits)
  show ?thesis
    using d e f
    by (simp add: canvasPan_def renderHUD_def updateScene_def renderSceneConfig_def
        after_last_position after_last_none)
qed

theorem disabled_entry_points_witness:
  "\<not> enabled w_off \<and> canvasPan w_off (Num 2) = w_off
   \<and> renderHUD w_off ''pin-cushion-hud'' = w_off
   \<and> elements w_off ''pin-cushion-hud'' = Some (OtherCss ''rotate(3deg)'')
   \<and> elements (updateScene w_off) ''pin-cushion-hud'' = Some Empty
   \<and> elements (updateScene w_off) ''poi-tp-ctx-menu'' = None
   \<and> renderSceneConfig w_off [FormGroup, OtherNode, FormGroup, OtherNode] []
       = [FormGroup, OtherNode, FormGroup,
          PinFix (getSceneHtml (getSceneTemplateData w_off [])), OtherNode]
   \<and> renderSceneConfig w_off [OtherNode] [] = [OtherNode]"
proof -
  have e: "\<not> enabled w_off" by (simp add: w_off_cfg)
  have el: "elements w_off ''pin-cushion-hud'' = Some (OtherCss ''rotate(3deg)'')"
    "elements w_off ''poi-tp-ctx-menu'' = None"
    by (simp_all add: w_off_def w_demo_def)
  note t = disabled_entry_points [OF e, of "Num 2" "''pin-cushion-hud''"
      "[FormGroup, OtherNode, FormGroup, OtherNode]" "[]"]
  note u = disabled_entry_points [OF e, of "Num 2" "''pin-cushion-hud''" "[OtherNode]" "[]"]
  have r: "renderSceneConfig w_off [FormGroup, OtherNode, FormGroup, OtherNode] []
       = [FormGroup, OtherNode, FormGroup,
          PinFix (getSceneHtml (getSceneTemplateData w_off [])), OtherNode]"
    using t [THEN conjunct2, THEN conjunct2, THEN conjunct2, THEN conjunct2, THEN conjunct2,
        THEN conjunct2, THEN conjunct2, THEN conjunct1, rule_format,
        of "[FormGroup, OtherNode]" FormGroup "[OtherNode]"]
    by simp
  have s: "renderSceneConfig w_off [OtherNode] [] = [OtherNode]"
    using u by simp
  note h = t [THEN conjunct2, THEN conjunct2, THEN conjunct2, THEN conjunct1, rule_format]
  have h1: "elements (updateScene w_off) ''pin-cushion-hud'' = Some Empty"
    using h [of "''pin-cushion-hud''"] el by simp
  have h2: "elements (updateScene w_off) ''poi-tp-ctx-menu'' = None"
    using h [of "''poi-tp-ctx-menu''"] el by simp
  have p: "canvasPan w_off (Num 2) = w_off" "renderHUD w_off ''pin-cushion-hud'' = w_off"
    using t by simp_all
  show ?thesis
    using e el r s h1 h2 p by simp
qed

section \<open>The pure reciprocal regime\<close>

text \<open>
  With \<open>minScale = maxScale = 1\<close> and the zoom inside the interval the pin scale is not
  always \<open>1 / zoom\<close>: on the interval \<open>[1, 1]\<close> the range mapper divides zero by zero
  and the scale at zoom 1 is NaN.
\<close>

theorem counter_flat:
  "minScale w_flat = Num 1 \<and> maxScale w_flat = Num 1
   \<and> le (zoomFloor w_flat) (Num 1) \<and> le (Num 1) (zoomCeil w_flat)
   \<and> noteScaleConfigured w_flat (Num 1) = NaN \<and> reciprocal (Num 1) = Num 1"
  by (simp add: noteScaleConfigured_def noteScaleFactor_def remapZoom_def clampZoom_def
      clamped_def map_range_def reciprocal_def w_flat_cfg sub_def add_def mul_def fdiv_def
      le_def zero_of_def)

text \<open>
  The difference \<open>zoom - zoomFloor\<close> has to be finite as well: between the bounds
  \<open>-2^1023\<close> and \<open>2^1023\<close> it overflows at the ceiling, and the scale is NaN again.
\<close>

lemma pure_reciprocal_overflow:
  "minScale w_huge = Num 1 \<and> maxScale w_huge = Num 1
   \<and> is_double (zoomFloor w_huge) \<and> is_double (zoomCeil w_huge)
   \<and> lt (zoomFloor w_huge) (zoomCeil w_huge)
   \<and> le (zoomFloor w_huge) (Num (2 ^ 1023)) \<and> le (Num (2 ^ 1023)) (zoomCeil w_huge)
   \<and> sub (Num (2 ^ 1023)) (zoomFloor w_huge) = PosInf
   \<and> noteScaleConfigured w_huge (Num (2 ^ 1023)) = NaN"
proof -
  have s: "sub (Num (2 ^ 1023)) (Num (- (2 ^ 1023))) = PosInf"
    using round_double_overflow by (simp add: sub_def add_def)
  have c: "clampZoom w_huge (Num (2 ^ 1023)) = Num (2 ^ 1023)"
    by (simp add: clampZoom_def clamped_def w_huge_cfg)
  have m: "mul PosInf (Num 0) = NaN" by (simp add: mul_def)
  have d: "fdiv NaN y = NaN" for y by (simp add: fdiv_def)
  have a: "add y NaN = NaN" for y by (simp add: add_def)
  have n: "mul y NaN = NaN" for y by (simp add: mul_def)
  have "noteScaleConfigured w_huge (Num (2 ^ 1023)) = NaN"
    unfolding noteScaleConfigured_def noteScaleFactor_def remapZoom_def c map_range_def
      w_huge_cfg fst_conv snd_conv s sub_one_one m d a n ..
  then show ?thesis
    using s is_double_pow by (simp add: w_huge_cfg le_def)
qed

text \<open>
  Claim C5, as the code computes. For doubles \<open>zoomFloor < zoomCeil\<close>,
  \<open>minScale = maxScale = 1\<close> and a zoom with \<open>zoomFloor \<le> zoom \<le> zoomCeil\<close> whose
  difference \<open>zoom - zoomFloor\<close> is finite, \<open>noteScaleConfigured zoom\<close> is
  \<open>1 / zoom\<close>.
\<close>

theorem pure_reciprocal_regime:
  assumes "minScale w = Num 1" "maxScale w = Num 1"
    and "is_double (zoomFloor w)" "is_double (zoomCeil w)"
    and "lt (zoomFloor w) (zoomCeil w)"
    and "le (zoomFloor w) zoom" "le zoom (zoomCeil w)"
    and "is_finite (sub zoom (zoomFloor w))"
  shows "noteScaleConfigured w zoom = reciprocal zoom"
proof -
  have c: "clampZoom w zoom = zoom"
    using assms(6,7) by (simp add: clampZoom_def clamped_def le_def)
  have d: "\<not> is_zero (sub (zoomCeil w) (zoomFloor w)) \<and> sub (zoomCeil w) (zoomFloor w) \<noteq> NaN"
    using assms(3,4,5) by (rule sub_lt_nonzero)
  have "is_zero (mul (sub zoom (zoomFloor w)) (Num 0))"
    using assms(8) by (rule mul_zero_right)
  then have "is_zero (fdiv (mul (sub zoom (zoomFloor w)) (Num 0))
                           (sub (zoomCeil w) (zoomFloor w)))"
    using d by (intro fdiv_zero_left) simp_all
  then have f: "noteScaleFactor w zoom = Num 1"
    by (simp add: noteScaleFactor_def remapZoom_def c map_range_def assms(1,2) sub_one_one
        add_one_zero)
  have "is_double (reciprocal zoom)"
    unfolding reciprocal_def by (rule fdiv_is_double)
  then show ?thesis
    by (simp add: noteScaleConfigured_def f mul_one_right)
qed

theorem pure_reciprocal_regime_witness:
  "minScale w_unit = Num 1 \<and> maxScale w_unit = Num 1
   \<and> lt (zoomFloor w_unit) (zoomCeil w_unit)
   \<and> le (zoomFloor w_unit) (Num 2) \<and> le (Num 2) (zoomCeil w_unit)
   \<and> noteScaleConfigured w_unit (Num 2) = Num (1 / 2)"
proof -
  have 1: "is_double (zoomFloor w_unit)" by (simp add: w_unit_cfg)
  have 2: "is_double (zoomCeil w_unit)"
    using round_double_int [of 4] by (simp add: w_unit_cfg is_double_def)
  have 3: "lt (zoomFloor w_unit) (zoomCeil w_unit)" by (simp add: w_unit_cfg)
  have 4: "le (zoomFloor w_unit) (Num 2)" by (simp add: w_unit_cfg le_def)
  have 5: "le (Num 2) (zoomCeil w_unit)" by (simp add: w_unit_cfg le_def)
  have 6: "is_finite (sub (Num 2) (zoomFloor w_unit))"
    by (simp add: w_unit_cfg sub_def add_def)
  have r: "reciprocal (Num 2) = Num (1 / 2)" by (simp add: reciprocal_def fdiv_def)
  show ?thesis
    using pure_reciprocal_regime [OF _ _ 1 2 3 4 5 6] 3 4 5 r
    by (simp add: w_unit_cfg)
qed

section \<open>The worked examples\<close>

text \<open>
  Claim C7. With \<open>zoomFloor = 0.1\<close>, \<open>zoomCeil = 2.0\<close>, \<open>minScale = 1\<close> and
  \<open>maxScale = 0.5\<close>: at zoom 2.0 the clamp gives 2.0, the remap 0.5 and
  \<open>noteScaleConfigured\<close> 0.25; the zoom 0.05 is below the floor, the clamp gives 0.1, the
  remap 1 and \<open>noteScaleConfigured\<close> 20. Every number is the double of its literal and
  every operation rounds.
\<close>

theorem spec_examples:
  "clampZoom w_example (lit 2) = lit 2
   \<and> noteScaleFactor w_example (lit 2) = lit (1 / 2)
   \<and> noteScaleConfigured w_example (lit 2) = lit (1 / 4)
   \<and> lt (lit (1 / 20)) (zoomFloor w_example)
   \<and> clampZoom w_example (lit (1 / 20)) = lit (1 / 10)
   \<and> noteScaleFactor w_example (lit (1 / 20)) = lit 1
   \<and> noteScaleConfigured w_example (lit (1 / 20)) = lit 20"
proof -
  have c2: "clampZoom w_example (lit 2) = lit 2"
    by (simp add: clampZoom_def clamped_def w_example_cfg lit_tenth lit_simple)
  have s1: "sub (Num 2) (lit (1 / 10)) = Num (4278419646001971 / 2251799813685248)"
    using two_minus_tenth by (simp add: lit_tenth sub_def add_def)
  have s2: "sub (Num (1 / 2)) (Num 1) = Num (- (1 / 2))"
    by (simp add: sub_def add_def)
  have m2: "mul (Num (4278419646001971 / 2251799813685248)) (Num (- (1 / 2)))
              = Num (- (4278419646001971 / 4503599627370496))"
    using half_of_that by (simp add: mul_def)
  have d2: "fdiv (Num (- (4278419646001971 / 4503599627370496)))
                 (Num (4278419646001971 / 2251799813685248)) = Num (- (1 / 2))"
    by (simp add: fdiv_def)
  have a2: "add (Num 1) (Num (- (1 / 2))) = Num (1 / 2)"
    by (simp add: add_def)
  have f2: "noteScaleFactor w_example (lit 2) = lit (1 / 2)"
    by (simp add: noteScaleFactor_def remapZoom_def c2 [unfolded lit_simple] map_range_def
        w_example_cfg lit_simple s1 s2 m2 d2 a2)
  have n2: "noteScaleConfigured w_example (lit 2) = lit (1 / 4)"
    by (simp add: noteScaleConfigured_def f2 [unfolded lit_simple] reciprocal_def lit_simple
        fdiv_def mul_def)
  have c1: "clampZoom w_example (lit (1 / 20)) = lit (1 / 10)"
    by (simp add: clampZoom_def clamped_def w_example_cfg lit_tenth lit_twentieth lit_simple)
  have s0: "sub (lit (1 / 10)) (lit (1 / 10)) = Num 0"
    by (simp add: lit_tenth sub_def add_def)
  have m1: "mul (Num 0) (Num (- (1 / 2))) = NegZero"
    by (simp add: mul_def zero_of_def)
  have d1: "fdiv NegZero (Num (4278419646001971 / 2251799813685248)) = NegZero"
    by (simp add: fdiv_def zero_of_def)
  have a1: "add (Num 1) NegZero = Num 1"
    by (simp add: add_def)
  have f1: "noteScaleFactor w_example (lit (1 / 20)) = lit 1"
    by (simp add: noteScaleFactor_def remapZoom_def c1 map_range_def w_example_cfg
        lit_simple s0 s1 s2 m1 d1 a1)
  have r1: "reciprocal (lit (1 / 20)) = Num 20"
    using recip_twentieth by (simp add: reciprocal_def lit_twentieth fdiv_def)
  have n1: "noteScaleConfigured w_example (lit (1 / 20)) = lit 20"
    by (simp add: noteScaleConfigured_def f1 [unfolded lit_simple] r1 lit_simple mul_def)
  have b1: "lt (lit (1 / 20)) (zoomFloor w_example)"
    by (simp add: w_example_cfg lit_tenth lit_twentieth)
  show ?thesis using c2 f2 n2 b1 c1 f1 n1 by simp
qed

end
